theory Spec2Isabelle
  imports Complex_Main
begin

section \<open>Spatial optimisation and coordinate conversion\<close>

text \<open>
  A shallow embedding of \<^verbatim>\<open>spatial_optimization.py\<close>. The program computes with
  Python floats. The embedding keeps the program's constants as the values they have
  (\<^verbatim>\<open>math.pi\<close> is a double, a rational number slightly below \<open>\<pi>\<close>) and reads the operations
  on them (\<open>+\<close>, \<open>-\<close>, \<open>*\<close>, \<open>/\<close>, \<^verbatim>\<open>math.cos\<close>) as exact operations on \<^typ>\<open>real\<close>:
  rounding and overflow are not modelled. A float division raises
  \<^verbatim>\<open>ZeroDivisionError\<close> on a zero divisor; the division is therefore a function into a
  sum type.
\<close>

subsection \<open>Errors and division\<close>

datatype py_error = ZeroDivisionError | TypeError | KeyError | IndexError | NameError

definition py_div :: "real \<Rightarrow> real \<Rightarrow> py_error + real" where
  "py_div a b = (if b = 0 then Inl ZeroDivisionError else Inr (a / b))"

subsection \<open>Coordinate conversion utilities\<close>

text \<open>
  \<^verbatim>\<open>pi\<close> of the module \<^verbatim>\<open>math\<close> is the double nearest to \<open>\<pi>\<close>,
  \<open>3.141592653589793115997963...\<close>, which is exactly this fraction of denominator
  \<open>2\<^sup>4\<^sup>8\<close>.
\<close>

definition math_pi :: real where
  "math_pi = 884279719003555 / 281474976710656"

text \<open>
  \<^verbatim>\<open>deg_to_kms\<close> multiplies, subtracts and divides by the constant 180 only: no
  operation in it can raise, so it returns a plain pair.
\<close>

definition deg_to_kms :: "real \<Rightarrow> real \<Rightarrow> real \<Rightarrow> real \<Rightarrow> real \<times> real" where
  "deg_to_kms point_long point_lat origin_long origin_lat =
     (let earth_radius = 6371.0;
          long = point_long * math_pi / 180;
          reference_long = origin_long * math_pi / 180;
          lat = point_lat * math_pi / 180;
          reference_lat = origin_lat * math_pi / 180;
          long_difference_rad = long - reference_long;
          lat_difference_rad = lat - reference_lat;
          diff_long = earth_radius * long_difference_rad * cos reference_lat;
          diff_lat = earth_radius * lat_difference_rad
      in (diff_long, diff_lat))"

text \<open>
  \<^verbatim>\<open>kms_to_deg\<close> divides by \<^verbatim>\<open>earth_radius * cos(reference_lat_rad)\<close>, its one divisor
  that is not a constant: the division raises if that product is 0. The other divisors
  are the non-zero constants \<^verbatim>\<open>earth_radius\<close> and \<^verbatim>\<open>pi\<close>.
\<close>

definition kms_to_deg :: "real \<Rightarrow> real \<Rightarrow> real \<Rightarrow> real \<Rightarrow> py_error + real \<times> real" where
  "kms_to_deg local_x local_y origin_long origin_lat =
     (let earth_radius = 6371.0;
          reference_lat_rad = origin_lat * math_pi / 180
      in case py_div local_x (earth_radius * cos reference_lat_rad) of
           Inl e \<Rightarrow> Inl e
         | Inr long_difference_rad \<Rightarrow>
             (let lat_difference_rad = local_y / earth_radius;
                  diff_long_deg = long_difference_rad * 180 / math_pi;
                  diff_lat_deg = lat_difference_rad * 180 / math_pi;
                  point_long = origin_long + diff_long_deg;
                  point_lat = origin_lat + diff_lat_deg
              in Inr (point_long, point_lat)))"

subsection \<open>Data setup\<close>

definition ORIGIN_LONG :: real where "ORIGIN_LONG = - 58.37788955179407"
definition ORIGIN_LAT :: real where "ORIGIN_LAT = - 34.595228892628455"

definition di_global :: "real \<times> real" where
  "di_global = (- 58.38467378144673, - 34.596156182566006)"
definition ob_global :: "real \<times> real" where
  "ob_global = (- 58.38094967105265, - 34.6034559421601)"
definition ga_global :: "real \<times> real" where
  "ga_global = (- 58.37401050128944, - 34.598868856938026)"

definition ho_global :: "real \<times> real" where
  "ho_global = (- 58.38358725902865, - 34.598181576896955)"
definition res_global :: "real \<times> real" where
  "res_global = (- 58.38026132000657, - 34.597792990501425)"

definition to_local :: "real \<times> real \<Rightarrow> real \<times> real" where
  "to_local p = deg_to_kms (fst p) (snd p) ORIGIN_LONG ORIGIN_LAT"

subsection \<open>Symbolic expressions\<close>

text \<open>
  The script builds its objective with SymPy over the symbols \<^verbatim>\<open>x\<close>, \<^verbatim>\<open>y\<close> and \<^verbatim>\<open>L\<close>.
  SymPy is a library outside the repository; it is modelled by what it computes on the
  polynomial expressions the script builds: an expression is a syntax tree, \<^verbatim>\<open>diff\<close> is
  symbolic differentiation by the sum, product and power rules, and \<^verbatim>\<open>solve\<close> solves a
  square linear system.
\<close>

datatype sym = X | Y | L

datatype expr =
    Num real
  | Sym sym
  | Add expr expr
  | Sub expr expr
  | Mul expr expr
  | Pow expr nat

fun eval :: "(sym \<Rightarrow> real) \<Rightarrow> expr \<Rightarrow> real" where
  "eval env (Num c) = c"
| "eval env (Sym s) = env s"
| "eval env (Add a b) = eval env a + eval env b"
| "eval env (Sub a b) = eval env a - eval env b"
| "eval env (Mul a b) = eval env a * eval env b"
| "eval env (Pow a n) = eval env a ^ n"

fun diff :: "expr \<Rightarrow> sym \<Rightarrow> expr" where
  "diff (Num c) s = Num 0"
| "diff (Sym t) s = (if t = s then Num 1 else Num 0)"
| "diff (Add a b) s = Add (diff a s) (diff b s)"
| "diff (Sub a b) s = Sub (diff a s) (diff b s)"
| "diff (Mul a b) s = Add (Mul (diff a s) b) (Mul a (diff b s))"
| "diff (Pow a n) s = Mul (Mul (Num (of_nat n)) (Pow a (n - 1))) (diff a s)"

text \<open>
  A linear form \<open>cX \<sqdot> x + cY \<sqdot> y + cL \<sqdot> L + c0\<close>. \<open>lin\<close> collects an expression into
  one when it can see that the expression is linear: sums and differences of linear
  forms, a product with a numeric factor, a product with the number zero, and a power
  of a number or with exponent 0 or 1. It is \<open>None\<close> on anything else.
\<close>

record linform =
  cX :: real
  cY :: real
  cL :: real
  c0 :: real

definition lin_num :: "real \<Rightarrow> linform" where
  "lin_num c = \<lparr>cX = 0, cY = 0, cL = 0, c0 = c\<rparr>"

definition lin_sym :: "sym \<Rightarrow> linform" where
  "lin_sym s = \<lparr>cX = (if s = X then 1 else 0), cY = (if s = Y then 1 else 0),
               cL = (if s = L then 1 else 0), c0 = 0\<rparr>"

definition lin_add :: "linform \<Rightarrow> linform \<Rightarrow> linform" where
  "lin_add p q = \<lparr>cX = cX p + cX q, cY = cY p + cY q, cL = cL p + cL q, c0 = c0 p + c0 q\<rparr>"

definition lin_sub :: "linform \<Rightarrow> linform \<Rightarrow> linform" where
  "lin_sub p q = \<lparr>cX = cX p - cX q, cY = cY p - cY q, cL = cL p - cL q, c0 = c0 p - c0 q\<rparr>"

definition lin_scale :: "real \<Rightarrow> linform \<Rightarrow> linform" where
  "lin_scale k p = \<lparr>cX = k * cX p, cY = k * cY p, cL = k * cL p, c0 = k * c0 p\<rparr>"

definition is_num :: "linform \<Rightarrow> bool" where
  "is_num p = (cX p = 0 \<and> cY p = 0 \<and> cL p = 0)"

definition coef :: "linform \<Rightarrow> sym \<Rightarrow> real" where
  "coef p s = (case s of X \<Rightarrow> cX p | Y \<Rightarrow> cY p | L \<Rightarrow> cL p)"

definition lin_eval :: "(sym \<Rightarrow> real) \<Rightarrow> linform \<Rightarrow> real" where
  "lin_eval env p = cX p * env X + cY p * env Y + cL p * env L + c0 p"

fun lin :: "expr \<Rightarrow> linform option" where
  "lin (Num c) = Some (lin_num c)"
| "lin (Sym s) = Some (lin_sym s)"
| "lin (Add a b) =
     (case (lin a, lin b) of (Some p, Some q) \<Rightarrow> Some (lin_add p q) | _ \<Rightarrow> None)"
| "lin (Sub a b) =
     (case (lin a, lin b) of (Some p, Some q) \<Rightarrow> Some (lin_sub p q) | _ \<Rightarrow> None)"
| "lin (Mul a b) =
     (case (lin a, lin b) of
        (Some p, Some q) \<Rightarrow>
          if is_num p then Some (lin_scale (c0 p) q)
          else if is_num q then Some (lin_scale (c0 q) p)
          else None
      | (Some p, None) \<Rightarrow> if is_num p \<and> c0 p = 0 then Some (lin_num 0) else None
      | (None, Some q) \<Rightarrow> if is_num q \<and> c0 q = 0 then Some (lin_num 0) else None
      | (None, None) \<Rightarrow> None)"
| "lin (Pow a n) =
     (if n = 0 then Some (lin_num 1)
      else if n = 1 then lin a
      else (case lin a of
              Some p \<Rightarrow> if is_num p then Some (lin_num (c0 p ^ n)) else None
            | None \<Rightarrow> None))"

subsection \<open>Solving linear systems\<close>

text \<open>
  What \<^verbatim>\<open>solve\<close> returns: a dict from symbols to numbers, a list of solution tuples, or
  (for the result extraction, which tests the shape) a value that is neither.

  \<^verbatim>\<open>solve\<close> on a linear system in as many unknowns as equations: a system with exactly
  one solution gives the dict of that solution (Cramer's rule). A system of two
  equations gives the empty list when it has no solution, and also when neither unknown
  occurs in it (to \<open>0 = 0\<close>, \<open>0 = 0\<close> too SymPy answers with the empty list). Everything
  else (a nonlinear system, a system in which an unknown occurs and which has
  infinitely many solutions, where SymPy answers with a parametric dict, a singular
  system of three equations, another number of equations) is outside the model:
  \<open>None\<close>.
\<close>

datatype solution = SolDict "sym \<rightharpoonup> real" | SolList "real list list" | SolOther

definition only_syms :: "sym list \<Rightarrow> linform \<Rightarrow> bool" where
  "only_syms ss p = list_all (\<lambda>s. s \<in> set ss \<or> coef p s = 0) [X, Y, L]"

definition det3 ::
  "real \<Rightarrow> real \<Rightarrow> real \<Rightarrow> real \<Rightarrow> real \<Rightarrow> real \<Rightarrow> real \<Rightarrow> real \<Rightarrow> real \<Rightarrow> real" where
  "det3 a11 a12 a13 a21 a22 a23 a31 a32 a33 =
     a11 * (a22 * a33 - a23 * a32) - a12 * (a21 * a33 - a23 * a31)
       + a13 * (a21 * a32 - a22 * a31)"

definition solve2 :: "linform \<Rightarrow> linform \<Rightarrow> sym \<Rightarrow> sym \<Rightarrow> solution option" where
  "solve2 p1 p2 s1 s2 =
     (let a11 = coef p1 s1; a12 = coef p1 s2;
          a21 = coef p2 s1; a22 = coef p2 s2;
          b1 = - c0 p1; b2 = - c0 p2;
          d = a11 * a22 - a12 * a21
      in if s1 = s2 \<or> \<not> only_syms [s1, s2] p1 \<or> \<not> only_syms [s1, s2] p2 then None
         else if d \<noteq> 0 then
           Some (SolDict [s1 \<mapsto> (b1 * a22 - a12 * b2) / d, s2 \<mapsto> (a11 * b2 - b1 * a21) / d])
         else if (a11 = 0 \<and> a12 = 0 \<and> a21 = 0 \<and> a22 = 0) \<or>
                 a11 * b2 - a21 * b1 \<noteq> 0 \<or> a12 * b2 - a22 * b1 \<noteq> 0
         then Some (SolList [])
         else None)"

definition solve3 ::
  "linform \<Rightarrow> linform \<Rightarrow> linform \<Rightarrow> sym \<Rightarrow> sym \<Rightarrow> sym \<Rightarrow> solution option" where
  "solve3 p1 p2 p3 s1 s2 s3 =
     (let a11 = coef p1 s1; a12 = coef p1 s2; a13 = coef p1 s3;
          a21 = coef p2 s1; a22 = coef p2 s2; a23 = coef p2 s3;
          a31 = coef p3 s1; a32 = coef p3 s2; a33 = coef p3 s3;
          b1 = - c0 p1; b2 = - c0 p2; b3 = - c0 p3;
          d = det3 a11 a12 a13 a21 a22 a23 a31 a32 a33
      in if \<not> distinct [s1, s2, s3] \<or> d = 0 then None
         else Some (SolDict
           [s1 \<mapsto> det3 b1 a12 a13 b2 a22 a23 b3 a32 a33 / d,
            s2 \<mapsto> det3 a11 b1 a13 a21 b2 a23 a31 b3 a33 / d,
            s3 \<mapsto> det3 a11 a12 b1 a21 a22 b2 a31 a32 b3 / d]))"

fun solve :: "expr list \<Rightarrow> sym list \<Rightarrow> solution option" where
  "solve [e1, e2] [s1, s2] =
     (case (lin e1, lin e2) of
        (Some p1, Some p2) \<Rightarrow> solve2 p1 p2 s1 s2
      | _ \<Rightarrow> None)"
| "solve [e1, e2, e3] [s1, s2, s3] =
     (case (lin e1, lin e2, lin e3) of
        (Some p1, Some p2, Some p3) \<Rightarrow> solve3 p1 p2 p3 s1 s2 s3
      | _ \<Rightarrow> None)"
| "solve es ss = None"

subsection \<open>Optimization model\<close>

text \<open>
  The utility function of the script, as a function of the local coordinates of the
  three amenities; the weights 1, 2 and 3 are the script's.
\<close>

definition U :: "real \<Rightarrow> real \<Rightarrow> real \<Rightarrow> real \<Rightarrow> real \<Rightarrow> real \<Rightarrow> expr" where
  "U x1 y1 x2 y2 x3 y3 =
     Add (Add (Mul (Num 1) (Add (Pow (Sub (Sym X) (Num x1)) 2) (Pow (Sub (Sym Y) (Num y1)) 2)))
              (Mul (Num 2) (Add (Pow (Sub (Sym X) (Num x2)) 2) (Pow (Sub (Sym Y) (Num y2)) 2))))
         (Mul (Num 3) (Add (Pow (Sub (Sym X) (Num x3)) 2) (Pow (Sub (Sym Y) (Num y3)) 2)))"

text \<open>Part A: the gradient of the utility and the solve of gradient = 0.\<close>

definition eq_1 :: "expr \<Rightarrow> expr" where "eq_1 u = diff u X"
definition eq_2 :: "expr \<Rightarrow> expr" where "eq_2 u = diff u Y"

definition unconstrained_sol :: "expr \<Rightarrow> solution option" where
  "unconstrained_sol u = solve [eq_1 u, eq_2 u] [X, Y]"

text \<open>
  Part B: the constraint line through the two street endpoints, in slope and intercept
  form. The slope is a float division by \<^verbatim>\<open>res_x - ho_x\<close>.
\<close>

definition constraint_line :: "real \<Rightarrow> real \<Rightarrow> real \<Rightarrow> real \<Rightarrow> py_error + real \<times> real" where
  "constraint_line ho_x ho_y res_x res_y =
     (case py_div (res_y - ho_y) (res_x - ho_x) of
        Inl e \<Rightarrow> Inl e
      | Inr m_slope \<Rightarrow> (let b_intercept = ho_y - m_slope * ho_x in Inr (m_slope, b_intercept)))"

definition g :: "real \<Rightarrow> real \<Rightarrow> expr" where
  "g m_slope b_intercept = Sub (Sub (Sym Y) (Mul (Num m_slope) (Sym X))) (Num b_intercept)"

definition lagrange_sol :: "expr \<Rightarrow> real \<Rightarrow> real \<Rightarrow> solution option" where
  "lagrange_sol u m_slope b_intercept =
     (let grad_g1 = diff (g m_slope b_intercept) X;
          grad_g2 = diff (g m_slope b_intercept) Y;
          lagrange_eq1 = Sub (eq_1 u) (Mul (Sym L) grad_g1);
          lagrange_eq2 = Sub (eq_2 u) (Mul (Sym L) grad_g2);
          constraint_eq = g m_slope b_intercept
      in solve [lagrange_eq1, lagrange_eq2, constraint_eq] [X, Y, L])"

definition constrained_sol ::
  "expr \<Rightarrow> real \<Rightarrow> real \<Rightarrow> real \<Rightarrow> real \<Rightarrow> py_error + solution option" where
  "constrained_sol u ho_x ho_y res_x res_y =
     (case constraint_line ho_x ho_y res_x res_y of
        Inl e \<Rightarrow> Inl e
      | Inr (m_slope, b_intercept) \<Rightarrow> Inr (lagrange_sol u m_slope b_intercept))"

subsection \<open>Results conversion\<close>

text \<open>
  \<^verbatim>\<open>sol[x]\<close> with a symbol as the index: a dict looks the key up, a list (and any value
  that is not a mapping) refuses the index with \<^verbatim>\<open>TypeError\<close>.
\<close>

definition subscript_sym :: "solution \<Rightarrow> sym \<Rightarrow> py_error + real" where
  "subscript_sym sol s =
     (case sol of
        SolDict d \<Rightarrow> (case d s of None \<Rightarrow> Inl KeyError | Some v \<Rightarrow> Inr v)
      | SolList ts \<Rightarrow> Inl TypeError
      | SolOther \<Rightarrow> Inl TypeError)"

definition extract_unconstrained :: "solution \<Rightarrow> py_error + real \<times> real" where
  "extract_unconstrained unc_sol =
     (case subscript_sym unc_sol X of
        Inl e \<Rightarrow> Inl e
      | Inr unc_x_local \<Rightarrow>
          (case subscript_sym unc_sol Y of
             Inl e \<Rightarrow> Inl e
           | Inr unc_y_local \<Rightarrow> Inr (unc_x_local, unc_y_local)))"

text \<open>
  The \<^verbatim>\<open>if isinstance(..., list) / elif isinstance(..., dict)\<close> statement has no
  \<^verbatim>\<open>else\<close>: it returns the binding of \<^verbatim>\<open>cons_x_local\<close> and \<^verbatim>\<open>cons_y_local\<close> when it made
  one, and \<open>None\<close> when the names stay unbound.
\<close>

definition extract_constrained :: "solution \<Rightarrow> py_error + (real \<times> real) option" where
  "extract_constrained cons_sol =
     (case cons_sol of
        SolList ts \<Rightarrow>
          (case ts of
             [] \<Rightarrow> Inl IndexError
           | t # _ \<Rightarrow>
               (case t of
                  [] \<Rightarrow> Inl IndexError
                | [cons_x_local] \<Rightarrow> Inl IndexError
                | cons_x_local # cons_y_local # _ \<Rightarrow> Inr (Some (cons_x_local, cons_y_local))))
      | SolDict d \<Rightarrow>
          (case subscript_sym (SolDict d) X of
             Inl e \<Rightarrow> Inl e
           | Inr cons_x_local \<Rightarrow>
               (case subscript_sym (SolDict d) Y of
                  Inl e \<Rightarrow> Inl e
                | Inr cons_y_local \<Rightarrow> Inr (Some (cons_x_local, cons_y_local))))
      | SolOther \<Rightarrow> Inr None)"

text \<open>
  Section 4 of the script, in its order: both extractions, then the two calls of
  \<^verbatim>\<open>kms_to_deg\<close>; the second call reads \<^verbatim>\<open>cons_x_local\<close>, which raises \<^verbatim>\<open>NameError\<close> when
  the name is unbound.
\<close>

definition results_conversion ::
  "solution \<Rightarrow> solution \<Rightarrow> real \<Rightarrow> real \<Rightarrow> py_error + (real \<times> real) \<times> (real \<times> real)" where
  "results_conversion unc_sol cons_sol origin_long origin_lat =
     (case extract_unconstrained unc_sol of
        Inl e \<Rightarrow> Inl e
      | Inr (unc_x_local, unc_y_local) \<Rightarrow>
     (case extract_constrained cons_sol of
        Inl e \<Rightarrow> Inl e
      | Inr cons_local \<Rightarrow>
     (case kms_to_deg unc_x_local unc_y_local origin_long origin_lat of
        Inl e \<Rightarrow> Inl e
      | Inr unc \<Rightarrow>
     (case cons_local of
        None \<Rightarrow> Inl NameError
      | Some (cons_x_local, cons_y_local) \<Rightarrow>
     (case kms_to_deg cons_x_local cons_y_local origin_long origin_lat of
        Inl e \<Rightarrow> Inl e
      | Inr cons \<Rightarrow> Inr (unc, cons))))))"

subsection \<open>The script\<close>

text \<open>
  The script from its data to its two printed locations: the utility at the local
  coordinates of the three amenities, both solves, and the conversion back to degrees.
  It is \<open>None\<close> only where a solve leaves the modelled part of \<^verbatim>\<open>solve\<close>.
\<close>

definition script_U :: expr where
  "script_U =
     U (fst (to_local di_global)) (snd (to_local di_global))
       (fst (to_local ob_global)) (snd (to_local ob_global))
       (fst (to_local ga_global)) (snd (to_local ga_global))"

definition script :: "(py_error + (real \<times> real) \<times> (real \<times> real)) option" where
  "script =
     (case unconstrained_sol script_U of
        None \<Rightarrow> None
      | Some unc_sol \<Rightarrow>
          (case constrained_sol script_U
                  (fst (to_local ho_global)) (snd (to_local ho_global))
                  (fst (to_local res_global)) (snd (to_local res_global)) of
             Inl e \<Rightarrow> Some (Inl e)
           | Inr None \<Rightarrow> None
           | Inr (Some cons_sol) \<Rightarrow>
               Some (results_conversion unc_sol cons_sol ORIGIN_LONG ORIGIN_LAT)))"

subsection \<open>The specification's objective, centroid and projection\<close>

text \<open>
  A weighted reference point is a local point with its weight, \<open>(x\<^sub>i, y\<^sub>i, w\<^sub>i)\<close>. The
  objective for a list of them is built the way the script builds \<open>U\<close>: one term
  \<open>w \<sqdot> ((x - x\<^sub>i)\<^sup>2 + (y - y\<^sub>i)\<^sup>2)\<close> per point, added from the left. \<open>U\<close> is the instance
  with three points of weights 1, 2 and 3.
\<close>

type_synonym wpoint = "real \<times> real \<times> real"

definition wterm :: "wpoint \<Rightarrow> expr" where
  "wterm p = (case p of (xi, yi, w) \<Rightarrow>
     Mul (Num w) (Add (Pow (Sub (Sym X) (Num xi)) 2) (Pow (Sub (Sym Y) (Num yi)) 2)))"

fun weighted_objective :: "wpoint list \<Rightarrow> expr" where
  "weighted_objective [] = Num 0"
| "weighted_objective (p # ps) = foldl (\<lambda>acc q. Add acc (wterm q)) (wterm p) ps"

definition total_weight :: "wpoint list \<Rightarrow> real" where
  "total_weight pts = (\<Sum>(xi, yi, w) \<leftarrow> pts. w)"

definition weighted_sum_x :: "wpoint list \<Rightarrow> real" where
  "weighted_sum_x pts = (\<Sum>(xi, yi, w) \<leftarrow> pts. w * xi)"

definition weighted_sum_y :: "wpoint list \<Rightarrow> real" where
  "weighted_sum_y pts = (\<Sum>(xi, yi, w) \<leftarrow> pts. w * yi)"

definition weighted_sum_sq :: "wpoint list \<Rightarrow> real" where
  "weighted_sum_sq pts = (\<Sum>(xi, yi, w) \<leftarrow> pts. w * (xi\<^sup>2 + yi\<^sup>2))"

text \<open>The closed form of the specification: the weight-weighted centroid.\<close>

definition weighted_centroid :: "wpoint list \<Rightarrow> real \<times> real" where
  "weighted_centroid pts =
     (weighted_sum_x pts / total_weight pts, weighted_sum_y pts / total_weight pts)"

text \<open>The value of the objective at a point, as the specification writes it.\<close>

definition objective_value :: "wpoint list \<Rightarrow> real \<Rightarrow> real \<Rightarrow> real" where
  "objective_value pts x y = (\<Sum>(xi, yi, w) \<leftarrow> pts. w * ((x - xi)\<^sup>2 + (y - yi)\<^sup>2))"

definition at_point :: "real \<Rightarrow> real \<Rightarrow> sym \<Rightarrow> real" where
  "at_point x y s = (case s of X \<Rightarrow> x | Y \<Rightarrow> y | L \<Rightarrow> 0)"

text \<open>
  The Euclidean orthogonal projection of a point \<open>c\<close> onto the line \<open>y = m \<sqdot> x + b\<close>,
  and the abscissa of the constrained optimum in closed form.
\<close>

definition orthogonal_projection :: "real \<Rightarrow> real \<Rightarrow> real \<times> real \<Rightarrow> real \<times> real" where
  "orthogonal_projection m b c =
     (let t = (fst c + m * (snd c - b)) / (1 + m\<^sup>2) in (t, m * t + b))"

definition constrained_x :: "wpoint list \<Rightarrow> real \<Rightarrow> real \<Rightarrow> real" where
  "constrained_x pts m b =
     (weighted_sum_x pts + m * weighted_sum_y pts - m * b * total_weight pts)
       / (total_weight pts * (1 + m\<^sup>2))"

subsection \<open>Partial sums of the arctangent series\<close>

text \<open>Used to bound \<open>\<pi>\<close> from below by Machin's formula.\<close>

definition arctan_partial :: "real \<Rightarrow> nat \<Rightarrow> real" where
  "arctan_partial x n = (\<Sum>i<n. (- 1) ^ i * (1 / real (i * 2 + 1) * x ^ (i * 2 + 1)))"

section \<open>Properties of the projections\<close>

lemma arctan_partial_bounds:
  assumes "0 < x" and "x \<le> 1"
  shows "arctan_partial x (2 * n) \<le> arctan x" and "arctan x \<le> arctan_partial x (2 * n + 1)"
proof -
  let ?a = "\<lambda>n. 1 / real (n * 2 + 1) * x ^ (n * 2 + 1)"
  have ax: "\<bar>x\<bar> \<le> 1" using assms by simp
  have pos: "0 < ?a 0" using assms by simp
  have "(\<Sum>i. (- 1) ^ i * ?a i)
          \<in> {\<Sum>i<2 * n. (- 1) ^ i * ?a i .. \<Sum>i<2 * n + 1. (- 1) ^ i * ?a i}"
    using summable_Leibniz(2) [OF zeroseq_arctan_series [OF ax] monoseq_arctan_series [OF ax]] pos
    by blast
  then show "arctan_partial x (2 * n) \<le> arctan x"
    and "arctan x \<le> arctan_partial x (2 * n + 1)"
    by (simp_all add: arctan_series [OF ax] arctan_partial_def)
qed

text \<open>\<^verbatim>\<open>math.pi\<close> is below \<open>\<pi>\<close>.\<close>

lemma math_pi_less_pi: "math_pi < pi"
proof -
  have l5: "arctan_partial (1 / 5) (2 * 6) \<le> arctan (1 / 5)"
    by (rule arctan_partial_bounds) simp_all
  have u239: "arctan (1 / 239) \<le> arctan_partial (1 / 239) (2 * 1 + 1)"
    by (rule arctan_partial_bounds) simp_all
  have "pi = 16 * arctan (1 / 5) - 4 * arctan (1 / 239)"
    using machin by simp
  then have "16 * arctan_partial (1 / 5) (2 * 6) - 4 * arctan_partial (1 / 239) (2 * 1 + 1) \<le> pi"
    using l5 u239 by simp
  moreover have
    "math_pi < 16 * arctan_partial (1 / 5) (2 * 6) - 4 * arctan_partial (1 / 239) (2 * 1 + 1)"
    by (simp add: math_pi_def arctan_partial_def lessThan_nat_numeral lessThan_Suc power_divide)
  ultimately show ?thesis by simp
qed

lemma math_pi_pos: "0 < math_pi"
  by (simp add: math_pi_def)

lemma math_pi_neq_0: "math_pi \<noteq> 0"
  using math_pi_pos by simp

text \<open>
  At every latitude from -90 to 90, the poles included, the cosine of the latitude in
  radians, as the code converts it, is positive.
\<close>

lemma cos_lat_pos:
  assumes "- 90 \<le> lat" and "lat \<le> 90"
  shows "0 < cos (lat * math_pi / 180)"
proof -
  have "(- 90) * math_pi \<le> lat * math_pi" and "lat * math_pi \<le> 90 * math_pi"
    using assms math_pi_pos by (simp_all only: mult_le_cancel_right_pos)
  then have "- (math_pi / 2) \<le> lat * math_pi / 180" and "lat * math_pi / 180 \<le> math_pi / 2"
    by linarith+
  then have "- (pi / 2) < lat * math_pi / 180" and "lat * math_pi / 180 < pi / 2"
    using math_pi_less_pi by linarith+
  then show ?thesis by (rule cos_gt_zero_pi)
qed

lemma cos_origin_lat_nonzero: "cos (ORIGIN_LAT * math_pi / 180) \<noteq> 0"
proof -
  have "0 < cos (ORIGIN_LAT * math_pi / 180)"
    by (rule cos_lat_pos) (simp_all add: ORIGIN_LAT_def)
  then show ?thesis by simp
qed

lemma kms_to_deg_value:
  assumes "cos (origin_lat * math_pi / 180) \<noteq> 0"
  shows "kms_to_deg local_x local_y origin_long origin_lat =
           Inr (origin_long + local_x / (6371 * cos (origin_lat * math_pi / 180)) * 180 / math_pi,
                origin_lat + local_y / 6371 * 180 / math_pi)"
  using assms by (simp add: kms_to_deg_def py_div_def Let_def)

lemma deg_to_kms_value:
  "deg_to_kms point_long point_lat origin_long origin_lat =
     (6371 * (point_long * math_pi / 180 - origin_long * math_pi / 180)
        * cos (origin_lat * math_pi / 180),
      6371 * (point_lat * math_pi / 180 - origin_lat * math_pi / 180))"
  by (simp add: deg_to_kms_def Let_def)

text \<open>
  Claim C4. For every geographic point and origin, \<^verbatim>\<open>deg_to_kms\<close> returns
  \<open>dx = R \<sqdot> \<Delta>long_rad \<sqdot> cos(origin.lat_rad)\<close> and \<open>dy = R \<sqdot> \<Delta>lat_rad\<close> with
  \<open>R = 6371\<close> km, where the differences are point minus origin, converted from degrees
  to radians (by the factor \<^verbatim>\<open>pi / 180\<close> of the code).
\<close>

theorem C4_deg_to_kms_formula:
  "deg_to_kms point_long point_lat origin_long origin_lat =
     (6371 * ((point_long - origin_long) * math_pi / 180) * cos (origin_lat * math_pi / 180),
      6371 * ((point_lat - origin_lat) * math_pi / 180))"
  by (simp add: deg_to_kms_def Let_def algebra_simps diff_divide_distrib)

theorem C4_deg_to_kms_formula_witness:
  "deg_to_kms 1 2 0 0 = (6371 * (math_pi / 180), 6371 * (2 * math_pi / 180))"
  using C4_deg_to_kms_formula [of 1 2 0 0] by simp

text \<open>
  Claim C3. For every geographic point \<open>p\<close> and origin \<open>o\<close> with
  \<open>cos(o.lat_rad) \<noteq> 0\<close>, the inverse projection of the forward projection of \<open>p\<close> about
  \<open>o\<close> is \<open>p\<close>, and the forward projection of the inverse projection of a local point
  \<open>q\<close> about \<open>o\<close> is \<open>q\<close>. In exact arithmetic both round trips are equalities, hence
  within every tolerance.
\<close>

theorem C3_round_trip:
  assumes "cos (origin_lat * math_pi / 180) \<noteq> 0"
  shows "kms_to_deg (fst (deg_to_kms point_long point_lat origin_long origin_lat))
           (snd (deg_to_kms point_long point_lat origin_long origin_lat))
           origin_long origin_lat = Inr (point_long, point_lat) \<and>
         (\<exists>g. kms_to_deg local_x local_y origin_long origin_lat = Inr g \<and>
           deg_to_kms (fst g) (snd g) origin_long origin_lat = (local_x, local_y))"
proof
  show "kms_to_deg (fst (deg_to_kms point_long point_lat origin_long origin_lat))
           (snd (deg_to_kms point_long point_lat origin_long origin_lat))
           origin_long origin_lat = Inr (point_long, point_lat)"
    using assms math_pi_neq_0
    by (simp add: deg_to_kms_def kms_to_deg_def py_div_def Let_def field_simps)
next
  let ?c = "6371 * cos (origin_lat * math_pi / 180)"
  let ?g = "(origin_long + local_x / ?c * 180 / math_pi,
             origin_lat + local_y / 6371 * 180 / math_pi)"
  have "kms_to_deg local_x local_y origin_long origin_lat = Inr ?g"
    using assms by (simp add: kms_to_deg_def py_div_def Let_def)
  moreover have "deg_to_kms (fst ?g) (snd ?g) origin_long origin_lat = (local_x, local_y)"
    using assms math_pi_neq_0 by (simp add: deg_to_kms_def Let_def field_simps)
  ultimately show "\<exists>g. kms_to_deg local_x local_y origin_long origin_lat = Inr g \<and>
           deg_to_kms (fst g) (snd g) origin_long origin_lat = (local_x, local_y)"
    by blast
qed

theorem C3_round_trip_witness:
  "cos (ORIGIN_LAT * math_pi / 180) \<noteq> 0 \<and>
   kms_to_deg (fst (to_local di_global)) (snd (to_local di_global)) ORIGIN_LONG ORIGIN_LAT
     = Inr di_global \<and>
   (\<exists>g. kms_to_deg 3 (- 4) ORIGIN_LONG ORIGIN_LAT = Inr g \<and>
        deg_to_kms (fst g) (snd g) ORIGIN_LONG ORIGIN_LAT = (3, - 4))"
  using cos_origin_lat_nonzero
    C3_round_trip [OF cos_origin_lat_nonzero, of "fst di_global" "snd di_global" ORIGIN_LONG 3 "- 4"]
  by (simp add: to_local_def)

text \<open>
  Claim C6 asks that at an origin at a pole, where it takes the cosine of the origin's
  latitude to be 0, both projections fail with a domain error. At the pole of latitude 90
  the cosine the code computes is not 0, and both projections return a pair.
\<close>

theorem C6_pole_counterexample:
  "cos (90 * math_pi / 180) \<noteq> 0 \<and>
   deg_to_kms 1 0 0 90 =
     (6371 * (1 * math_pi / 180 - 0 * math_pi / 180) * cos (90 * math_pi / 180),
      6371 * (0 * math_pi / 180 - 90 * math_pi / 180)) \<and>
   kms_to_deg 1 1 0 90 =
     Inr (0 + 1 / (6371 * cos (90 * math_pi / 180)) * 180 / math_pi,
          90 + 1 / 6371 * 180 / math_pi)"
proof -
  have "0 < cos (90 * math_pi / 180)" by (rule cos_lat_pos) simp_all
  then have c: "cos (90 * math_pi / 180) \<noteq> 0" by simp
  show ?thesis
    using c kms_to_deg_value [OF c, where local_x = 1 and local_y = 1 and origin_long = 0]
      deg_to_kms_value [of 1 0 0 90]
    by simp
qed

text \<open>
  Claim C6, as the code has it. For every origin of latitude from -90 to 90, the poles
  included, the cosine of the origin's latitude that the code computes is not 0, and
  neither projection fails: the inverse projection returns
  \<open>(o.long + x / (R \<sqdot> cos(o.lat_rad)) \<sqdot> 180 / pi, o.lat + y / R \<sqdot> 180 / pi)\<close> and the forward
  projection returns \<open>(R \<sqdot> \<Delta>long_rad \<sqdot> cos(o.lat_rad), R \<sqdot> \<Delta>lat_rad)\<close>. The code has no
  guard and no domain error.
\<close>

theorem C6_no_failure_at_poles:
  assumes "- 90 \<le> origin_lat" and "origin_lat \<le> 90"
  shows "cos (origin_lat * math_pi / 180) \<noteq> 0 \<and>
         kms_to_deg local_x local_y origin_long origin_lat =
           Inr (origin_long + local_x / (6371 * cos (origin_lat * math_pi / 180)) * 180 / math_pi,
                origin_lat + local_y / 6371 * 180 / math_pi) \<and>
         deg_to_kms point_long point_lat origin_long origin_lat =
           (6371 * (point_long * math_pi / 180 - origin_long * math_pi / 180)
              * cos (origin_lat * math_pi / 180),
            6371 * (point_lat * math_pi / 180 - origin_lat * math_pi / 180))"
proof -
  have "0 < cos (origin_lat * math_pi / 180)" by (rule cos_lat_pos [OF assms])
  then have c: "cos (origin_lat * math_pi / 180) \<noteq> 0" by simp
  show ?thesis using c kms_to_deg_value [OF c] deg_to_kms_value by simp
qed

theorem C6_no_failure_at_poles_witness:
  "cos (- 90 * math_pi / 180) \<noteq> 0 \<and>
   kms_to_deg 1 1 0 (- 90) =
     Inr (0 + 1 / (6371 * cos (- 90 * math_pi / 180)) * 180 / math_pi,
          - 90 + 1 / 6371 * 180 / math_pi) \<and>
   deg_to_kms 1 0 0 (- 90) =
     (6371 * (1 * math_pi / 180 - 0 * math_pi / 180) * cos (- 90 * math_pi / 180),
      6371 * (0 * math_pi / 180 - - 90 * math_pi / 180))"
proof -
  have r: "(- 90 :: real) \<le> - 90" "(- 90 :: real) \<le> 90" by simp_all
  show ?thesis
    using C6_no_failure_at_poles [OF r, of 1 1 0 1 0] by simp
qed

text \<open>
  Claim C8. For every origin \<open>o\<close> the forward projection of \<open>o\<close> about \<open>o\<close> is \<open>(0, 0)\<close>,
  and for every origin of latitude from -90 to 90, the poles included, the inverse
  projection of \<open>(0, 0)\<close> about \<open>o\<close> is \<open>o\<close>.
\<close>

theorem C8_origin_is_local_zero:
  "deg_to_kms origin_long origin_lat origin_long origin_lat = (0, 0) \<and>
   (- 90 \<le> origin_lat \<and> origin_lat \<le> 90 \<longrightarrow>
      kms_to_deg 0 0 origin_long origin_lat = Inr (origin_long, origin_lat))"
proof (intro conjI impI)
  show "deg_to_kms origin_long origin_lat origin_long origin_lat = (0, 0)"
    by (simp add: deg_to_kms_def Let_def)
next
  assume "- 90 \<le> origin_lat \<and> origin_lat \<le> 90"
  then have "0 < cos (origin_lat * math_pi / 180)" by (intro cos_lat_pos) simp_all
  then have "cos (origin_lat * math_pi / 180) \<noteq> 0" by simp
  from kms_to_deg_value [OF this, where local_x = 0 and local_y = 0 and origin_long = origin_long]
  show "kms_to_deg 0 0 origin_long origin_lat = Inr (origin_long, origin_lat)" by simp
qed

theorem C8_origin_is_local_zero_witness:
  "deg_to_kms 0 90 0 90 = (0, 0) \<and> kms_to_deg 0 0 0 90 = Inr (0, 90) \<and>
   deg_to_kms ORIGIN_LONG ORIGIN_LAT ORIGIN_LONG ORIGIN_LAT = (0, 0) \<and>
   kms_to_deg 0 0 ORIGIN_LONG ORIGIN_LAT = Inr (ORIGIN_LONG, ORIGIN_LAT)"
  using C8_origin_is_local_zero [of 0 90] C8_origin_is_local_zero [of ORIGIN_LONG ORIGIN_LAT]
  by (simp add: ORIGIN_LAT_def)

section \<open>Properties of the symbolic model\<close>

lemma lin_sound: "lin e = Some p \<Longrightarrow> eval env e = lin_eval env p"
proof (induction e arbitrary: p)
  case (Num c) then show ?case by (auto simp: lin_eval_def lin_num_def)
next
  case (Sym s) then show ?case by (cases s) (auto simp: lin_eval_def lin_sym_def)
next
  case (Add a b) then show ?case
    by (auto simp: lin_eval_def lin_add_def algebra_simps split: option.splits)
next
  case (Sub a b) then show ?case
    by (auto simp: lin_eval_def lin_sub_def algebra_simps split: option.splits)
next
  case (Mul a b) then show ?case
    by (auto simp: lin_eval_def lin_scale_def lin_num_def is_num_def algebra_simps
             split: option.splits if_splits)
next
  case (Pow a n) then show ?case
    by (auto simp: lin_eval_def lin_num_def is_num_def split: option.splits if_splits)
qed

lemma diff_correct:
  "((\<lambda>t. eval (env(s := t)) e) has_field_derivative eval (env(s := t)) (diff e s)) (at t)"
proof (induction e)
  case (Pow a n)
  show ?case using DERIV_power [OF Pow, of n] by (simp add: mult_ac)
qed (auto intro!: derivative_eq_intros)

lemma U_weighted_objective:
  "U x1 y1 x2 y2 x3 y3 = weighted_objective [(x1, y1, 1), (x2, y2, 2), (x3, y3, 3)]"
  by (simp add: U_def wterm_def)

lemma lin_diff_wterm_X:
  "lin (diff (wterm (xi, yi, w)) X) = Some \<lparr>cX = 2 * w, cY = 0, cL = 0, c0 = - 2 * (w * xi)\<rparr>"
  by (simp add: wterm_def lin_num_def lin_sym_def lin_add_def lin_sub_def lin_scale_def is_num_def)

lemma lin_diff_wterm_Y:
  "lin (diff (wterm (xi, yi, w)) Y) = Some \<lparr>cX = 0, cY = 2 * w, cL = 0, c0 = - 2 * (w * yi)\<rparr>"
  by (simp add: wterm_def lin_num_def lin_sym_def lin_add_def lin_sub_def lin_scale_def is_num_def)

lemma lin_diff_foldl_X:
  "lin (diff acc X) = Some p \<Longrightarrow>
   lin (diff (foldl (\<lambda>acc q. Add acc (wterm q)) acc ps) X) =
     Some \<lparr>cX = cX p + 2 * total_weight ps, cY = cY p, cL = cL p,
           c0 = c0 p - 2 * weighted_sum_x ps\<rparr>"
proof (induction ps arbitrary: acc p)
  case Nil
  then show ?case by (simp add: total_weight_def weighted_sum_x_def)
next
  case (Cons q qs)
  obtain xi yi w where q: "q = (xi, yi, w)" by (cases q) auto
  have "lin (diff (Add acc (wterm q)) X) = Some (lin_add p \<lparr>cX = 2 * w, cY = 0, cL = 0, c0 = - 2 * (w * xi)\<rparr>)"
    using Cons.prems by (simp add: q lin_diff_wterm_X)
  from Cons.IH [OF this] show ?case
    by (simp add: q lin_add_def total_weight_def weighted_sum_x_def algebra_simps)
qed

lemma lin_diff_foldl_Y:
  "lin (diff acc Y) = Some p \<Longrightarrow>
   lin (diff (foldl (\<lambda>acc q. Add acc (wterm q)) acc ps) Y) =
     Some \<lparr>cX = cX p, cY = cY p + 2 * total_weight ps, cL = cL p,
           c0 = c0 p - 2 * weighted_sum_y ps\<rparr>"
proof (induction ps arbitrary: acc p)
  case Nil
  then show ?case by (simp add: total_weight_def weighted_sum_y_def)
next
  case (Cons q qs)
  obtain xi yi w where q: "q = (xi, yi, w)" by (cases q) auto
  have "lin (diff (Add acc (wterm q)) Y) = Some (lin_add p \<lparr>cX = 0, cY = 2 * w, cL = 0, c0 = - 2 * (w * yi)\<rparr>)"
    using Cons.prems by (simp add: q lin_diff_wterm_Y)
  from Cons.IH [OF this] show ?case
    by (simp add: q lin_add_def total_weight_def weighted_sum_y_def algebra_simps)
qed

lemma lin_eq_1:
  "lin (eq_1 (weighted_objective pts)) =
     Some \<lparr>cX = 2 * total_weight pts, cY = 0, cL = 0, c0 = - 2 * weighted_sum_x pts\<rparr>"
proof (cases pts)
  case Nil
  then show ?thesis by (simp add: eq_1_def lin_num_def total_weight_def weighted_sum_x_def)
next
  case (Cons q qs)
  obtain xi yi w where q: "q = (xi, yi, w)" by (cases q) auto
  show ?thesis
    using lin_diff_foldl_X [OF lin_diff_wterm_X, of xi yi w qs]
    by (simp add: Cons q eq_1_def total_weight_def weighted_sum_x_def algebra_simps)
qed

lemma lin_eq_2:
  "lin (eq_2 (weighted_objective pts)) =
     Some \<lparr>cX = 0, cY = 2 * total_weight pts, cL = 0, c0 = - 2 * weighted_sum_y pts\<rparr>"
proof (cases pts)
  case Nil
  then show ?thesis by (simp add: eq_2_def lin_num_def total_weight_def weighted_sum_y_def)
next
  case (Cons q qs)
  obtain xi yi w where q: "q = (xi, yi, w)" by (cases q) auto
  show ?thesis
    using lin_diff_foldl_Y [OF lin_diff_wterm_Y, of xi yi w qs]
    by (simp add: Cons q eq_2_def total_weight_def weighted_sum_y_def algebra_simps)
qed

lemma unconstrained_sol_centroid:
  assumes "total_weight pts \<noteq> 0"
  shows "unconstrained_sol (weighted_objective pts) =
           Some (SolDict [X \<mapsto> fst (weighted_centroid pts), Y \<mapsto> snd (weighted_centroid pts)])"
  using assms
  by (simp add: unconstrained_sol_def lin_eq_1 lin_eq_2 solve2_def only_syms_def coef_def
        weighted_centroid_def Let_def field_simps)

lemma eval_wterm:
  "eval (at_point x y) (wterm (xi, yi, w)) = w * ((x - xi)\<^sup>2 + (y - yi)\<^sup>2)"
  by (simp add: wterm_def at_point_def)

lemma eval_foldl:
  "eval (at_point x y) (foldl (\<lambda>acc q. Add acc (wterm q)) acc ps) =
     eval (at_point x y) acc + objective_value ps x y"
proof (induction ps arbitrary: acc)
  case Nil
  then show ?case by (simp add: objective_value_def)
next
  case (Cons q qs)
  obtain xi yi w where q: "q = (xi, yi, w)" by (cases q) auto
  show ?case by (simp add: Cons.IH q eval_wterm objective_value_def)
qed

lemma eval_weighted_objective:
  "eval (at_point x y) (weighted_objective pts) = objective_value pts x y"
proof (cases pts)
  case Nil
  then show ?thesis by (simp add: objective_value_def)
next
  case (Cons q qs)
  obtain xi yi w where q: "q = (xi, yi, w)" by (cases q) auto
  show ?thesis by (simp add: Cons q eval_foldl eval_wterm objective_value_def)
qed

lemma objective_value_expand:
  "objective_value pts x y =
     total_weight pts * (x\<^sup>2 + y\<^sup>2) - 2 * x * weighted_sum_x pts
       - 2 * y * weighted_sum_y pts + weighted_sum_sq pts"
proof (induction pts)
  case Nil
  then show ?case
    by (simp add: objective_value_def total_weight_def weighted_sum_x_def weighted_sum_y_def
          weighted_sum_sq_def)
next
  case (Cons q qs)
  obtain xi yi w where q: "q = (xi, yi, w)" by (cases q) auto
  have step: "objective_value (q # qs) x y = w * ((x - xi)\<^sup>2 + (y - yi)\<^sup>2) + objective_value qs x y"
    by (simp add: objective_value_def q)
  show ?case
    unfolding step Cons.IH
    by (simp add: q total_weight_def weighted_sum_x_def weighted_sum_y_def weighted_sum_sq_def
          power2_eq_square algebra_simps)
qed

lemma total_weight_pos:
  assumes "pts \<noteq> []" and "\<forall>(xi, yi, w) \<in> set pts. 0 < w"
  shows "0 < total_weight pts"
  using assms
proof (induction pts)
  case Nil
  then show ?case by simp
next
  case (Cons q qs)
  obtain xi yi w where q: "q = (xi, yi, w)" by (cases q) auto
  have w: "0 < w" using Cons.prems(2) by (simp add: q)
  show ?case
  proof (cases qs)
    case Nil
    then show ?thesis using w by (simp add: total_weight_def q)
  next
    case (Cons r rs)
    then have "0 < total_weight qs" using Cons.IH Cons.prems(2) by simp
    then show ?thesis using w by (simp add: total_weight_def q)
  qed
qed

lemma lin_g: "lin (g m b) = Some \<lparr>cX = - m, cY = 1, cL = 0, c0 = - b\<rparr>"
  by (simp add: g_def lin_num_def lin_sym_def lin_sub_def lin_scale_def is_num_def)

lemma lin_grad_g1: "lin (diff (g m b) X) = Some (lin_num (- m))"
  by (simp add: g_def lin_num_def lin_sym_def lin_sub_def lin_add_def lin_scale_def is_num_def)

lemma lin_grad_g2: "lin (diff (g m b) Y) = Some (lin_num 1)"
  by (simp add: g_def lin_num_def lin_sym_def lin_sub_def lin_add_def lin_scale_def is_num_def)

lemma lin_lagrange_eq1:
  "lin (Sub (eq_1 (weighted_objective pts)) (Mul (Sym L) (diff (g m b) X))) =
     Some \<lparr>cX = 2 * total_weight pts, cY = 0, cL = m, c0 = - 2 * weighted_sum_x pts\<rparr>"
  by (simp add: lin_eq_1 lin_grad_g1 lin_num_def lin_sym_def lin_sub_def lin_scale_def is_num_def)

lemma lin_lagrange_eq2:
  "lin (Sub (eq_2 (weighted_objective pts)) (Mul (Sym L) (diff (g m b) Y))) =
     Some \<lparr>cX = 0, cY = 2 * total_weight pts, cL = - 1, c0 = - 2 * weighted_sum_y pts\<rparr>"
  by (simp add: lin_eq_2 lin_grad_g2 lin_num_def lin_sym_def lin_sub_def lin_scale_def is_num_def)

lemma one_plus_sq_pos: "0 < 1 + (m::real)\<^sup>2"
  by (simp add: add_pos_nonneg)

lemma lagrange_sol_closed_form:
  assumes "total_weight pts \<noteq> 0"
  shows "lagrange_sol (weighted_objective pts) m b =
           Some (SolDict [X \<mapsto> constrained_x pts m b,
                          Y \<mapsto> m * constrained_x pts m b + b,
                          L \<mapsto> 2 * total_weight pts * (m * constrained_x pts m b + b)
                                 - 2 * weighted_sum_y pts])"
proof -
  let ?W = "total_weight pts"
  have nz: "1 + m\<^sup>2 \<noteq> 0" using one_plus_sq_pos [of m] by simp
  have d: "det3 (2 * ?W) 0 m 0 (2 * ?W) (- 1) (- m) 1 0 = 2 * ?W * (1 + m\<^sup>2)"
    by (simp add: det3_def power2_eq_square algebra_simps)
  have dnz: "2 * ?W * (1 + m\<^sup>2) \<noteq> 0" using assms nz by simp
  let ?N = "weighted_sum_x pts + m * weighted_sum_y pts - m * b * ?W"
  let ?D = "?W * (1 + m\<^sup>2)"
  have Dnz: "?D \<noteq> 0" using assms nz by simp
  have cx: "constrained_x pts m b * ?D = ?N"
    using Dnz by (simp add: constrained_x_def)
  have x: "det3 (2 * weighted_sum_x pts) 0 m (2 * weighted_sum_y pts) (2 * ?W) (- 1) b 1 0
             / (2 * ?W * (1 + m\<^sup>2)) = constrained_x pts m b"
  proof -
    have "det3 (2 * weighted_sum_x pts) 0 m (2 * weighted_sum_y pts) (2 * ?W) (- 1) b 1 0
            = 2 * ?N"
      by (simp add: det3_def algebra_simps)
    also have "\<dots> = constrained_x pts m b * (2 * ?W * (1 + m\<^sup>2))"
      using cx by (simp add: algebra_simps)
    finally show ?thesis using dnz by (simp add: divide_eq_eq)
  qed
  have y: "det3 (2 * ?W) (2 * weighted_sum_x pts) m 0 (2 * weighted_sum_y pts) (- 1) (- m) b 0
             / (2 * ?W * (1 + m\<^sup>2)) = m * constrained_x pts m b + b"
  proof -
    have "det3 (2 * ?W) (2 * weighted_sum_x pts) m 0 (2 * weighted_sum_y pts) (- 1) (- m) b 0
            = 2 * (m * ?N + b * ?D)"
      by (simp add: det3_def power2_eq_square algebra_simps)
    also have "\<dots> = (m * constrained_x pts m b + b) * (2 * ?W * (1 + m\<^sup>2))"
      unfolding cx [symmetric] by (simp add: algebra_simps)
    finally show ?thesis using dnz by (simp add: divide_eq_eq)
  qed
  have l: "det3 (2 * ?W) 0 (2 * weighted_sum_x pts) 0 (2 * ?W) (2 * weighted_sum_y pts) (- m) 1 b
             / (2 * ?W * (1 + m\<^sup>2))
           = 2 * ?W * (m * constrained_x pts m b + b) - 2 * weighted_sum_y pts"
  proof -
    have "det3 (2 * ?W) 0 (2 * weighted_sum_x pts) 0 (2 * ?W) (2 * weighted_sum_y pts) (- m) 1 b
            = 2 * ?W * (2 * (m * ?N + b * ?D)) - 2 * weighted_sum_y pts * (2 * ?D)"
      by (simp add: det3_def power2_eq_square algebra_simps)
    also have "\<dots> = (2 * ?W * (m * constrained_x pts m b + b) - 2 * weighted_sum_y pts)
                      * (2 * ?W * (1 + m\<^sup>2))"
      unfolding cx [symmetric] by (simp add: algebra_simps)
    finally show ?thesis using dnz by (simp add: divide_eq_eq)
  qed
  let ?p1 = "\<lparr>cX = 2 * ?W, cY = 0, cL = m, c0 = - 2 * weighted_sum_x pts\<rparr>"
  let ?p2 = "\<lparr>cX = 0, cY = 2 * ?W, cL = - 1, c0 = - 2 * weighted_sum_y pts\<rparr>"
  let ?p3 = "\<lparr>cX = - m, cY = 1, cL = 0, c0 = - b\<rparr>"
  have "lagrange_sol (weighted_objective pts) m b = solve3 ?p1 ?p2 ?p3 X Y L"
    by (simp only: lagrange_sol_def Let_def solve.simps lin_lagrange_eq1 lin_lagrange_eq2 lin_g
          option.case prod.case)
  also have "\<dots> = Some (SolDict [X \<mapsto> constrained_x pts m b,
                          Y \<mapsto> m * constrained_x pts m b + b,
                          L \<mapsto> 2 * total_weight pts * (m * constrained_x pts m b + b)
                                 - 2 * weighted_sum_y pts])"
    using dnz by (simp add: solve3_def coef_def d x y l)
  finally show ?thesis .
qed

lemma orthogonal_projection_nearest:
  assumes "y = m * x + b" and "p = orthogonal_projection m b (cx, cy)"
  shows "(x - cx)\<^sup>2 + (y - cy)\<^sup>2 =
           (fst p - cx)\<^sup>2 + (snd p - cy)\<^sup>2 + (1 + m\<^sup>2) * (x - fst p)\<^sup>2"
proof -
  define t where "t = (cx + m * (cy - b)) / (1 + m\<^sup>2)"
  have nz: "1 + m\<^sup>2 \<noteq> 0" using one_plus_sq_pos [of m] by simp
  have "t * (1 + m\<^sup>2) = cx + m * (cy - b)" using nz by (simp add: t_def)
  then have cx: "cx = t * (1 + m\<^sup>2) - m * (cy - b)" by simp
  have p: "fst p = t" "snd p = m * t + b"
    using assms(2) by (simp_all add: orthogonal_projection_def Let_def t_def)
  show ?thesis
    unfolding p assms(1)
    by (subst (1 2) cx) (simp add: power2_eq_square algebra_simps)
qed

lemma objective_on_line:
  assumes "total_weight pts \<noteq> 0"
  shows "objective_value pts x (m * x + b)
           - objective_value pts (constrained_x pts m b) (m * constrained_x pts m b + b)
         = total_weight pts * (1 + m\<^sup>2) * (x - constrained_x pts m b)\<^sup>2"
proof -
  define W where "W = total_weight pts"
  define t where "t = constrained_x pts m b"
  define Sy where "Sy = weighted_sum_y pts"
  have nz: "1 + m\<^sup>2 \<noteq> 0" using one_plus_sq_pos [of m] by simp
  have Dnz: "W * (1 + m\<^sup>2) \<noteq> 0" using assms nz by (simp add: W_def)
  have "t * (W * (1 + m\<^sup>2)) = weighted_sum_x pts + m * Sy - m * b * W"
    using Dnz by (simp add: constrained_x_def t_def W_def Sy_def)
  then have sx: "weighted_sum_x pts = t * (W * (1 + m\<^sup>2)) - m * Sy + m * b * W"
    by simp
  have "objective_value pts x (m * x + b) - objective_value pts t (m * t + b)
         = W * (1 + m\<^sup>2) * (x - t)\<^sup>2"
    unfolding objective_value_expand W_def [symmetric] Sy_def [symmetric]
    by (subst (1 2) sx) (simp add: power2_eq_square algebra_simps)
  then show ?thesis by (simp add: W_def t_def)
qed

lemma extract_constrained_unbound:
  "extract_constrained c = Inr None \<longleftrightarrow> c = SolOther"
  by (auto simp: extract_constrained_def subscript_sym_def
           split: solution.splits list.splits option.splits sum.splits)

lemma extract_constrained_bound:
  "extract_constrained c = Inr (Some (a, b)) \<longleftrightarrow>
     (\<exists>rest ts. c = SolList ((a # b # rest) # ts)) \<or>
     (\<exists>d. c = SolDict d \<and> d X = Some a \<and> d Y = Some b)"
  by (auto simp: extract_constrained_def subscript_sym_def
           split: solution.splits list.splits option.splits sum.splits)

lemma solve2_sound:
  assumes "solve2 p1 p2 s1 s2 = Some (SolDict d)"
    and "env s1 = the (d s1)" and "env s2 = the (d s2)"
  shows "lin_eval env p1 = 0 \<and> lin_eval env p2 = 0"
proof -
  define dt where "dt = coef p1 s1 * coef p2 s2 - coef p1 s2 * coef p2 s1"
  have ne: "s1 \<noteq> s2" and o1: "only_syms [s1, s2] p1" and o2: "only_syms [s1, s2] p2"
    and dnz: "dt \<noteq> 0"
    using assms(1) by (auto simp: solve2_def Let_def dt_def split: if_splits)
  have d: "d = [s1 \<mapsto> (- c0 p1 * coef p2 s2 - coef p1 s2 * - c0 p2) / dt,
                s2 \<mapsto> (coef p1 s1 * - c0 p2 - - c0 p1 * coef p2 s1) / dt]"
    using assms(1) ne o1 o2 dnz by (simp add: solve2_def Let_def dt_def)
  have v1: "env s1 * dt = - c0 p1 * coef p2 s2 - coef p1 s2 * - c0 p2"
    using assms(2) ne dnz by (simp add: d)
  have v2: "env s2 * dt = coef p1 s1 * - c0 p2 - - c0 p1 * coef p2 s1"
    using assms(3) dnz by (simp add: d)
  have e1: "lin_eval env p1 = coef p1 s1 * env s1 + coef p1 s2 * env s2 + c0 p1"
    using ne o1 by (cases s1; cases s2) (auto simp: lin_eval_def only_syms_def coef_def)
  have e2: "lin_eval env p2 = coef p2 s1 * env s1 + coef p2 s2 * env s2 + c0 p2"
    using ne o2 by (cases s1; cases s2) (auto simp: lin_eval_def only_syms_def coef_def)
  have "lin_eval env p1 * dt = coef p1 s1 * (env s1 * dt) + coef p1 s2 * (env s2 * dt) + c0 p1 * dt"
    by (simp add: e1 algebra_simps)
  also have "\<dots> = 0" unfolding v1 v2 by (simp add: dt_def algebra_simps)
  finally have r1: "lin_eval env p1 = 0" using dnz by simp
  have "lin_eval env p2 * dt = coef p2 s1 * (env s1 * dt) + coef p2 s2 * (env s2 * dt) + c0 p2 * dt"
    by (simp add: e2 algebra_simps)
  also have "\<dots> = 0" unfolding v1 v2 by (simp add: dt_def algebra_simps)
  finally have r2: "lin_eval env p2 = 0" using dnz by simp
  show ?thesis using r1 r2 by simp
qed

lemma solve2_empty_sound:
  assumes "solve2 p1 p2 s1 s2 = Some (SolList ts)"
  shows "ts = [] \<and>
         ((coef p1 s1 = 0 \<and> coef p1 s2 = 0 \<and> coef p2 s1 = 0 \<and> coef p2 s2 = 0) \<or>
          \<not> (lin_eval env p1 = 0 \<and> lin_eval env p2 = 0))"
proof -
  define a11 where "a11 = coef p1 s1"
  define a12 where "a12 = coef p1 s2"
  define a21 where "a21 = coef p2 s1"
  define a22 where "a22 = coef p2 s2"
  define guard where
    "guard \<longleftrightarrow> s1 = s2 \<or> \<not> only_syms [s1, s2] p1 \<or> \<not> only_syms [s1, s2] p2"
  define empty where
    "empty \<longleftrightarrow> (a11 = 0 \<and> a12 = 0 \<and> a21 = 0 \<and> a22 = 0) \<or>
        a11 * - c0 p2 - a21 * - c0 p1 \<noteq> 0 \<or> a12 * - c0 p2 - a22 * - c0 p1 \<noteq> 0"
  have unfolded: "solve2 p1 p2 s1 s2 =
      (if guard then None
       else if a11 * a22 - a12 * a21 \<noteq> 0 then
         Some (SolDict [s1 \<mapsto> (- c0 p1 * a22 - a12 * - c0 p2) / (a11 * a22 - a12 * a21),
                        s2 \<mapsto> (a11 * - c0 p2 - - c0 p1 * a21) / (a11 * a22 - a12 * a21)])
       else if empty then Some (SolList []) else None)"
    unfolding solve2_def Let_def guard_def empty_def a11_def a12_def a21_def a22_def ..
  have g: "\<not> guard" using assms unfolding unfolded by (cases guard) simp_all
  have dz: "a11 * a22 - a12 * a21 = 0"
    using assms g unfolding unfolded by (cases "a11 * a22 - a12 * a21 = 0") simp_all
  have i: "empty" using assms g dz unfolding unfolded by (cases empty) simp_all
  have ts: "ts = []" using assms g dz i unfolding unfolded by simp
  have ne: "s1 \<noteq> s2" and o1: "only_syms [s1, s2] p1" and o2: "only_syms [s1, s2] p2"
    using g unfolding guard_def by blast+
  have e1: "lin_eval env p1 = a11 * env s1 + a12 * env s2 + c0 p1"
    using ne o1 unfolding a11_def a12_def
    by (cases s1; cases s2) (auto simp: lin_eval_def only_syms_def coef_def)
  have e2: "lin_eval env p2 = a21 * env s1 + a22 * env s2 + c0 p2"
    using ne o2 unfolding a21_def a22_def
    by (cases s1; cases s2) (auto simp: lin_eval_def only_syms_def coef_def)
  have zero: "a11 = 0 \<and> a12 = 0 \<and> a21 = 0 \<and> a22 = 0"
    if z: "lin_eval env p1 = 0" "lin_eval env p2 = 0"
  proof -
    have c1: "- c0 p1 = a11 * env s1 + a12 * env s2" using z(1) e1 by simp
    have c2: "- c0 p2 = a21 * env s1 + a22 * env s2" using z(2) e2 by simp
    have m1: "a11 * - c0 p2 - a21 * - c0 p1 = (a11 * a22 - a12 * a21) * env s2"
      unfolding c1 c2 by (simp add: algebra_simps)
    have m2: "a12 * - c0 p2 - a22 * - c0 p1 = - (a11 * a22 - a12 * a21) * env s1"
      unfolding c1 c2 by (simp add: algebra_simps)
    have z1: "a11 * - c0 p2 - a21 * - c0 p1 = 0" unfolding m1 dz by simp
    have z2: "a12 * - c0 p2 - a22 * - c0 p1 = 0" unfolding m2 dz by simp
    from i z1 z2 show ?thesis unfolding empty_def by blast
  qed
  then show ?thesis using ts unfolding a11_def a12_def a21_def a22_def by blast
qed

lemma unconstrained_sol_stationary:
  assumes "unconstrained_sol u = Some (SolDict d)" and "d X = Some x" and "d Y = Some y"
  shows "eval (at_point x y) (eq_1 u) = 0 \<and> eval (at_point x y) (eq_2 u) = 0"
proof -
  from assms(1) obtain p1 p2 where
    p: "lin (eq_1 u) = Some p1" "lin (eq_2 u) = Some p2" "solve2 p1 p2 X Y = Some (SolDict d)"
    by (auto simp: unconstrained_sol_def split: option.splits)
  have "lin_eval (at_point x y) p1 = 0 \<and> lin_eval (at_point x y) p2 = 0"
    by (rule solve2_sound [OF p(3)]) (simp_all add: at_point_def assms)
  then show ?thesis by (simp add: lin_sound [OF p(1)] lin_sound [OF p(2)])
qed



lemma constraint_line_nonvertical:
  assumes "res_x \<noteq> ho_x"
  shows "constraint_line ho_x ho_y res_x res_y =
           Inr ((res_y - ho_y) / (res_x - ho_x),
                ho_y - (res_y - ho_y) / (res_x - ho_x) * ho_x)"
  using assms by (simp add: constraint_line_def py_div_def)

lemma constraint_line_through:
  assumes "constraint_line ho_x ho_y res_x res_y = Inr (m, b)"
  shows "ho_y = m * ho_x + b \<and> res_y = m * res_x + b"
proof -
  have ne: "res_x - ho_x \<noteq> 0"
    using assms by (auto simp: constraint_line_def py_div_def split: if_splits)
  have m: "m = (res_y - ho_y) / (res_x - ho_x)" and b: "b = ho_y - m * ho_x"
    using assms ne by (auto simp: constraint_line_def py_div_def Let_def)
  have "m * (res_x - ho_x) = res_y - ho_y" using ne by (simp add: m)
  then show ?thesis by (simp add: b algebra_simps)
qed

lemma constraint_line_any: "constraint_line 0 b 1 (m + b) = Inr (m, b)"
  by (simp add: constraint_line_def py_div_def)

lemma script_U_objective:
  "script_U = weighted_objective
     [(fst (to_local di_global), snd (to_local di_global), 1),
      (fst (to_local ob_global), snd (to_local ob_global), 2),
      (fst (to_local ga_global), snd (to_local ga_global), 3)]"
  by (simp only: script_U_def U_weighted_objective)

lemma script_line_not_vertical: "fst (to_local res_global) \<noteq> fst (to_local ho_global)"
  using cos_origin_lat_nonzero math_pi_neq_0
  by (simp add: to_local_def deg_to_kms_def res_global_def ho_global_def)

lemma script_runs: "\<exists>unc cons. script = Some (Inr (unc, cons))"
proof -
  let ?pts = "[(fst (to_local di_global), snd (to_local di_global), 1),
      (fst (to_local ob_global), snd (to_local ob_global), 2),
      (fst (to_local ga_global), snd (to_local ga_global), 3)] :: wpoint list"
  have W: "total_weight ?pts \<noteq> 0" by (simp add: total_weight_def)
  note unc = unconstrained_sol_centroid [OF W]
  obtain m b where line: "constraint_line (fst (to_local ho_global)) (snd (to_local ho_global))
        (fst (to_local res_global)) (snd (to_local res_global)) = Inr (m, b)"
    using constraint_line_nonvertical [OF script_line_not_vertical] by blast
  note cons = lagrange_sol_closed_form [OF W, of m b]
  have k: "\<exists>r. kms_to_deg x y ORIGIN_LONG ORIGIN_LAT = Inr r" for x y
    using cos_origin_lat_nonzero by (simp add: kms_to_deg_def py_div_def Let_def)
  obtain r1 where r1: "kms_to_deg (fst (weighted_centroid ?pts)) (snd (weighted_centroid ?pts))
      ORIGIN_LONG ORIGIN_LAT = Inr r1"
    using k by blast
  obtain r2 where r2: "kms_to_deg (constrained_x ?pts m b) (m * constrained_x ?pts m b + b)
      ORIGIN_LONG ORIGIN_LAT = Inr r2"
    using k by blast
  have "script = Some (Inr (r1, r2))"
    unfolding script_def script_U_objective unc constrained_sol_def line sum.case prod.case cons
      option.case
    by (simp add: results_conversion_def extract_unconstrained_def extract_constrained_def
          subscript_sym_def r1 r2 case_prod_beta)
  then show ?thesis by blast
qed

section \<open>Properties of the optimization\<close>

text \<open>
  Claim C1. For every non-empty list of reference points with positive weights, the
  unconstrained solve (the gradient of the weighted squared-distance objective set to
  zero and solved) returns exactly the weighted centroid \<open>x* = \<Sum>(w\<^sub>i \<sqdot> x\<^sub>i) / \<Sum>w\<^sub>i\<close>,
  \<open>y* = \<Sum>(w\<^sub>i \<sqdot> y\<^sub>i) / \<Sum>w\<^sub>i\<close>; in particular the solve over the script's \<open>U\<close>, with
  weights 1, 2 and 3, equals this closed form.
\<close>

theorem C1_unconstrained_is_centroid:
  assumes "pts \<noteq> []" and "\<forall>(xi, yi, w) \<in> set pts. 0 < w"
  shows "unconstrained_sol (weighted_objective pts) =
           Some (SolDict [X \<mapsto> weighted_sum_x pts / total_weight pts,
                          Y \<mapsto> weighted_sum_y pts / total_weight pts]) \<and>
         unconstrained_sol (U x1 y1 x2 y2 x3 y3) =
           Some (SolDict [X \<mapsto> (1 * x1 + 2 * x2 + 3 * x3) / (1 + 2 + 3),
                          Y \<mapsto> (1 * y1 + 2 * y2 + 3 * y3) / (1 + 2 + 3)])"
proof
  have "total_weight pts \<noteq> 0" using total_weight_pos [OF assms] by simp
  from unconstrained_sol_centroid [OF this]
  show "unconstrained_sol (weighted_objective pts) =
           Some (SolDict [X \<mapsto> weighted_sum_x pts / total_weight pts,
                          Y \<mapsto> weighted_sum_y pts / total_weight pts])"
    by (simp add: weighted_centroid_def)
next
  let ?pts = "[(x1, y1, 1), (x2, y2, 2), (x3, y3, 3)]"
  have W: "total_weight ?pts \<noteq> 0" by (simp add: total_weight_def)
  have c: "weighted_centroid ?pts =
             ((1 * x1 + 2 * x2 + 3 * x3) / (1 + 2 + 3), (1 * y1 + 2 * y2 + 3 * y3) / (1 + 2 + 3))"
    by (simp add: weighted_centroid_def total_weight_def weighted_sum_x_def weighted_sum_y_def
          algebra_simps)
  show "unconstrained_sol (U x1 y1 x2 y2 x3 y3) =
           Some (SolDict [X \<mapsto> (1 * x1 + 2 * x2 + 3 * x3) / (1 + 2 + 3),
                          Y \<mapsto> (1 * y1 + 2 * y2 + 3 * y3) / (1 + 2 + 3)])"
    by (simp only: U_weighted_objective unconstrained_sol_centroid [OF W] c fst_conv snd_conv)
qed

theorem C1_unconstrained_is_centroid_witness:
  "unconstrained_sol (weighted_objective [(0, 0, 1), (10, 0, 2), (0, 10, 3)]) =
     Some (SolDict [X \<mapsto> 20 / 6, Y \<mapsto> 30 / 6]) \<and>
   unconstrained_sol (U 0 0 10 0 0 10) = Some (SolDict [X \<mapsto> 20 / 6, Y \<mapsto> 30 / 6])"
  using C1_unconstrained_is_centroid [of "[(0, 0, 1), (10, 0, 2), (0, 10, 3)]" 0 0 10 0 0 10]
  by (simp add: total_weight_def weighted_sum_x_def weighted_sum_y_def)

text \<open>
  Claim C2. For every non-vertical constraint line (through two endpoints with different
  abscissae, \<open>y = m \<sqdot> x + b\<close> with the slope and intercept the script computes) and every
  objective with positive weights, the constrained solve returns a point \<open>(x, y)\<close> with
  \<open>y = m \<sqdot> x + b\<close>, and the objective at every other point of the line is strictly
  larger: the point is the unique minimiser on the line.
\<close>

theorem C2_constrained_on_line_unique_min:
  assumes "pts \<noteq> []" and "\<forall>(xi, yi, w) \<in> set pts. 0 < w" and "res_x \<noteq> ho_x"
  shows "\<exists>m b x y l.
           constraint_line ho_x ho_y res_x res_y = Inr (m, b) \<and>
           ho_y = m * ho_x + b \<and> res_y = m * res_x + b \<and>
           constrained_sol (weighted_objective pts) ho_x ho_y res_x res_y =
             Inr (Some (SolDict [X \<mapsto> x, Y \<mapsto> y, L \<mapsto> l])) \<and>
           y = m * x + b \<and>
           (\<forall>x' y'. y' = m * x' + b \<and> (x', y') \<noteq> (x, y) \<longrightarrow>
              eval (at_point x y) (weighted_objective pts)
                < eval (at_point x' y') (weighted_objective pts))"
proof -
  define m where "m = (res_y - ho_y) / (res_x - ho_x)"
  define b where "b = ho_y - m * ho_x"
  define x where "x = constrained_x pts m b"
  define y where "y = m * x + b"
  define l where "l = 2 * total_weight pts * y - 2 * weighted_sum_y pts"
  have W: "0 < total_weight pts" by (rule total_weight_pos [OF assms(1,2)])
  have line: "constraint_line ho_x ho_y res_x res_y = Inr (m, b)"
    using constraint_line_nonvertical [OF assms(3)] by (simp add: m_def b_def)
  have sol: "constrained_sol (weighted_objective pts) ho_x ho_y res_x res_y =
               Inr (Some (SolDict [X \<mapsto> x, Y \<mapsto> y, L \<mapsto> l]))"
    using W by (simp add: constrained_sol_def line lagrange_sol_closed_form x_def y_def l_def)
  have less: "eval (at_point x y) (weighted_objective pts)
                < eval (at_point x' y') (weighted_objective pts)"
    if "y' = m * x' + b \<and> (x', y') \<noteq> (x, y)" for x' y'
  proof -
    from that have y': "y' = m * x' + b" and ne: "x' \<noteq> x" by (auto simp: y_def)
    have "objective_value pts x' y' - objective_value pts x y
            = total_weight pts * (1 + m\<^sup>2) * (x' - x)\<^sup>2"
      unfolding y' y_def x_def using W by (intro objective_on_line) simp
    moreover have "0 < total_weight pts * (1 + m\<^sup>2) * (x' - x)\<^sup>2"
      using W one_plus_sq_pos [of m] ne by simp
    ultimately show ?thesis by (simp add: eval_weighted_objective)
  qed
  have "constraint_line ho_x ho_y res_x res_y = Inr (m, b) \<and>
           ho_y = m * ho_x + b \<and> res_y = m * res_x + b \<and>
           constrained_sol (weighted_objective pts) ho_x ho_y res_x res_y =
             Inr (Some (SolDict [X \<mapsto> x, Y \<mapsto> y, L \<mapsto> l])) \<and>
           y = m * x + b \<and>
           (\<forall>x' y'. y' = m * x' + b \<and> (x', y') \<noteq> (x, y) \<longrightarrow>
              eval (at_point x y) (weighted_objective pts)
                < eval (at_point x' y') (weighted_objective pts))"
    using line constraint_line_through [OF line] sol less y_def by simp
  then show ?thesis by (intro exI)
qed

theorem C2_constrained_on_line_unique_min_witness:
  "\<exists>x y l.
     constraint_line 0 0 10 10 = Inr (1, 0) \<and>
     constrained_sol (weighted_objective [(0, 0, 1), (10, 0, 2), (0, 10, 3)]) 0 0 10 10 =
       Inr (Some (SolDict [X \<mapsto> x, Y \<mapsto> y, L \<mapsto> l])) \<and>
     y = x \<and>
     eval (at_point x y) (weighted_objective [(0, 0, 1), (10, 0, 2), (0, 10, 3)])
       \<le> eval (at_point 0 0) (weighted_objective [(0, 0, 1), (10, 0, 2), (0, 10, 3)])"
proof -
  let ?pts = "[(0, 0, 1), (10, 0, 2), (0, 10, 3)] :: wpoint list"
  have pos: "\<forall>(xi, yi, w) \<in> set ?pts. 0 < w" by simp
  have ne: "?pts \<noteq> []" "(10::real) \<noteq> 0" by simp_all
  from C2_constrained_on_line_unique_min [OF ne(1) pos ne(2), of 0 10]
  obtain m b x y l where
    line: "constraint_line 0 0 10 10 = Inr (m, b)" and
    sol: "constrained_sol (weighted_objective ?pts) 0 0 10 10 =
            Inr (Some (SolDict [X \<mapsto> x, Y \<mapsto> y, L \<mapsto> l]))" and
    on: "y = m * x + b" and
    least: "\<forall>x' y'. y' = m * x' + b \<and> (x', y') \<noteq> (x, y) \<longrightarrow>
              eval (at_point x y) (weighted_objective ?pts)
                < eval (at_point x' y') (weighted_objective ?pts)"
    by blast
  have mb: "m = 1" "b = 0" using line by (simp_all add: constraint_line_def py_div_def)
  have yx: "y = x" using on mb by simp
  have le: "eval (at_point x y) (weighted_objective ?pts)
              \<le> eval (at_point 0 0) (weighted_objective ?pts)"
  proof (cases "(0, 0) = (x, y)")
    case True
    then show ?thesis by simp
  next
    case False
    then have "eval (at_point x y) (weighted_objective ?pts)
                 < eval (at_point 0 0) (weighted_objective ?pts)"
      using least mb by simp
    then show ?thesis by simp
  qed
  show ?thesis using line sol yx le unfolding mb by blast
qed

text \<open>
  Claim C5 asks that a vertical constraint line be rejected with a domain error or
  handled as \<open>x = c\<close>, and not fail in the slope computation. It fails there.
\<close>

theorem C5_vertical_counterexample:
  "constrained_sol (U 0 0 10 0 0 10) 1 0 1 5 = Inl ZeroDivisionError"
  by (simp add: constrained_sol_def constraint_line_def py_div_def)

text \<open>
  Claim C5, as the code has it. When the two endpoints of the constraint line have equal
  abscissae (\<^verbatim>\<open>res_x == ho_x\<close>), the slope computation divides by zero and the constrained
  solve raises \<^verbatim>\<open>ZeroDivisionError\<close> before any equation is built; there is no guard and
  no special case for a vertical line.
\<close>

theorem C5_vertical_line_raises:
  assumes "res_x = ho_x"
  shows "constrained_sol u ho_x ho_y res_x res_y = Inl ZeroDivisionError"
  using assms by (simp add: constrained_sol_def constraint_line_def py_div_def)

theorem C5_vertical_line_raises_witness:
  "constrained_sol (U 0 0 10 0 0 10) 3 (- 1) 3 7 = Inl ZeroDivisionError"
  using C5_vertical_line_raises [of 3 3 "U 0 0 10 0 0 10" "- 1" 7] by simp




text \<open>
  Claim C9. For every non-vertical constraint line (the line \<open>y = m \<sqdot> x + b\<close> through the
  two endpoints, with the slope and intercept the script computes) and every objective
  of positive total weight, the constrained optimum is the orthogonal projection of the
  unconstrained optimum (the weighted centroid) onto that line: it lies on the line, the
  vector from it to the centroid is orthogonal to the direction \<open>(1, m)\<close> of the line, and
  no point of the line is closer to the centroid.
\<close>

theorem C9_constrained_is_projection_of_centroid:
  assumes "0 < total_weight pts" and "res_x \<noteq> ho_x"
  shows "\<exists>m b cx cy x y l.
           constraint_line ho_x ho_y res_x res_y = Inr (m, b) \<and>
           ho_y = m * ho_x + b \<and> res_y = m * res_x + b \<and>
           unconstrained_sol (weighted_objective pts) = Some (SolDict [X \<mapsto> cx, Y \<mapsto> cy]) \<and>
           (cx, cy) = weighted_centroid pts \<and>
           constrained_sol (weighted_objective pts) ho_x ho_y res_x res_y =
             Inr (Some (SolDict [X \<mapsto> x, Y \<mapsto> y, L \<mapsto> l])) \<and>
           (x, y) = orthogonal_projection m b (cx, cy) \<and>
           y = m * x + b \<and>
           (cx - x) * 1 + (cy - y) * m = 0 \<and>
           (\<forall>x' y'. y' = m * x' + b \<longrightarrow>
              (x - cx)\<^sup>2 + (y - cy)\<^sup>2 \<le> (x' - cx)\<^sup>2 + (y' - cy)\<^sup>2)"
proof -
  define W where "W = total_weight pts"
  define m where "m = (res_y - ho_y) / (res_x - ho_x)"
  define b where "b = ho_y - m * ho_x"
  define cx where "cx = weighted_sum_x pts / W"
  define cy where "cy = weighted_sum_y pts / W"
  define x where "x = constrained_x pts m b"
  define y where "y = m * x + b"
  define l where "l = 2 * W * y - 2 * weighted_sum_y pts"
  have W: "W \<noteq> 0" "total_weight pts \<noteq> 0" using assms(1) by (simp_all add: W_def)
  have nz: "1 + m\<^sup>2 \<noteq> 0" using one_plus_sq_pos [of m] by simp
  have line: "constraint_line ho_x ho_y res_x res_y = Inr (m, b)"
    using constraint_line_nonvertical [OF assms(2)] by (simp add: m_def b_def)
  have unc: "unconstrained_sol (weighted_objective pts) = Some (SolDict [X \<mapsto> cx, Y \<mapsto> cy])"
    using unconstrained_sol_centroid [OF W(2)]
    by (simp add: weighted_centroid_def cx_def cy_def W_def)
  have cen: "(cx, cy) = weighted_centroid pts"
    by (simp add: weighted_centroid_def cx_def cy_def W_def)
  have sol: "constrained_sol (weighted_objective pts) ho_x ho_y res_x res_y =
               Inr (Some (SolDict [X \<mapsto> x, Y \<mapsto> y, L \<mapsto> l]))"
    using W by (simp add: constrained_sol_def line lagrange_sol_closed_form x_def y_def l_def W_def)
  have xt: "x = (cx + m * (cy - b)) / (1 + m\<^sup>2)"
    using W nz by (simp add: x_def constrained_x_def cx_def cy_def W_def field_simps)
  have proj: "(x, y) = orthogonal_projection m b (cx, cy)"
    by (simp add: orthogonal_projection_def Let_def xt y_def)
  have "x * (1 + m\<^sup>2) = cx + m * (cy - b)" using nz by (simp add: xt)
  then have perp: "(cx - x) * 1 + (cy - y) * m = 0"
    by (simp add: y_def power2_eq_square algebra_simps)
  have near: "(x - cx)\<^sup>2 + (y - cy)\<^sup>2 \<le> (x' - cx)\<^sup>2 + (y' - cy)\<^sup>2"
    if "y' = m * x' + b" for x' y'
  proof -
    have "(x' - cx)\<^sup>2 + (y' - cy)\<^sup>2 =
            (x - cx)\<^sup>2 + (y - cy)\<^sup>2 + (1 + m\<^sup>2) * (x' - x)\<^sup>2"
      using orthogonal_projection_nearest [OF that proj] by simp
    moreover have "0 \<le> (1 + m\<^sup>2) * (x' - x)\<^sup>2" by simp
    ultimately show ?thesis by simp
  qed
  have "constraint_line ho_x ho_y res_x res_y = Inr (m, b) \<and>
           ho_y = m * ho_x + b \<and> res_y = m * res_x + b \<and>
           unconstrained_sol (weighted_objective pts) = Some (SolDict [X \<mapsto> cx, Y \<mapsto> cy]) \<and>
           (cx, cy) = weighted_centroid pts \<and>
           constrained_sol (weighted_objective pts) ho_x ho_y res_x res_y =
             Inr (Some (SolDict [X \<mapsto> x, Y \<mapsto> y, L \<mapsto> l])) \<and>
           (x, y) = orthogonal_projection m b (cx, cy) \<and>
           y = m * x + b \<and>
           (cx - x) * 1 + (cy - y) * m = 0 \<and>
           (\<forall>x' y'. y' = m * x' + b \<longrightarrow>
              (x - cx)\<^sup>2 + (y - cy)\<^sup>2 \<le> (x' - cx)\<^sup>2 + (y' - cy)\<^sup>2)"
    using line constraint_line_through [OF line] unc cen sol proj perp near y_def by simp
  then show ?thesis by (intro exI)
qed

theorem C9_constrained_is_projection_of_centroid_witness:
  "unconstrained_sol (weighted_objective [(0, 0, 1), (10, 0, 2), (0, 10, 3)]) =
     Some (SolDict [X \<mapsto> 10 / 3, Y \<mapsto> 5]) \<and>
   (\<exists>l. constrained_sol (weighted_objective [(0, 0, 1), (10, 0, 2), (0, 10, 3)]) 0 0 10 10 =
     Inr (Some (SolDict [X \<mapsto> 25 / 6, Y \<mapsto> 25 / 6, L \<mapsto> l]))) \<and>
   orthogonal_projection 1 0 (10 / 3, 5) = (25 / 6, 25 / 6)"
proof -
  let ?pts = "[(0, 0, 1), (10, 0, 2), (0, 10, 3)] :: wpoint list"
  have W: "0 < total_weight ?pts" by (simp add: total_weight_def)
  have ne: "(10::real) \<noteq> 0" by simp
  from C9_constrained_is_projection_of_centroid [OF W ne, where ho_y = 0 and res_y = 10]
  obtain m b cx cy x y l where
    line: "constraint_line 0 0 10 10 = Inr (m, b)" and
    unc: "unconstrained_sol (weighted_objective ?pts) = Some (SolDict [X \<mapsto> cx, Y \<mapsto> cy])" and
    cen: "(cx, cy) = weighted_centroid ?pts" and
    sol: "constrained_sol (weighted_objective ?pts) 0 0 10 10 =
            Inr (Some (SolDict [X \<mapsto> x, Y \<mapsto> y, L \<mapsto> l]))" and
    proj: "(x, y) = orthogonal_projection m b (cx, cy)" and
    thru: "(0::real) = m * 0 + b" "(10::real) = m * 10 + b"
    by (elim exE conjE) (rule that; assumption)
  have mb: "m = 1" "b = 0" using thru by simp_all
  have "weighted_centroid ?pts = (10 / 3, 5)"
    by (simp add: weighted_centroid_def total_weight_def weighted_sum_x_def weighted_sum_y_def)
  with cen have c: "cx = 10 / 3" "cy = 5" by simp_all
  have p: "orthogonal_projection 1 0 (10 / 3, 5) = (25 / 6, 25 / 6)"
    by (simp add: orthogonal_projection_def Let_def)
  have xy: "x = 25 / 6" "y = 25 / 6" using proj unfolding mb c p by simp_all
  have "\<exists>l. constrained_sol (weighted_objective ?pts) 0 0 10 10 =
          Inr (Some (SolDict [X \<mapsto> 25 / 6, Y \<mapsto> 25 / 6, L \<mapsto> l]))"
    using sol unfolding xy by (rule exI)
  moreover have "unconstrained_sol (weighted_objective ?pts) = Some (SolDict [X \<mapsto> 10 / 3, Y \<mapsto> 5])"
    using unc unfolding c .
  ultimately show ?thesis using p by (intro conjI)
qed

text \<open>
  Claim C10. The result extraction binds the constrained local coordinates only when the
  solver's result is a list or a dict: the names stay unbound exactly for a result of
  another shape, and then the conversion to degrees fails with \<^verbatim>\<open>NameError\<close> (when the
  unconstrained part went through). The conversion returns a result only if the
  constrained result is a non-empty list whose first tuple has two components, or a
  dict with the keys \<^verbatim>\<open>x\<close> and \<^verbatim>\<open>y\<close>.
\<close>

theorem C10_extraction_shapes:
  "(extract_constrained c = Inr None \<longleftrightarrow> c = SolOther) \<and>
   (\<forall>ux uy unc. extract_unconstrained u = Inr (ux, uy) \<and>
        kms_to_deg ux uy origin_long origin_lat = Inr unc \<longrightarrow>
        results_conversion u SolOther origin_long origin_lat = Inl NameError) \<and>
   (\<forall>r. results_conversion u c origin_long origin_lat = Inr r \<longrightarrow>
        (\<exists>a b rest ts. c = SolList ((a # b # rest) # ts)) \<or>
        (\<exists>d. c = SolDict d \<and> X \<in> dom d \<and> Y \<in> dom d))"
proof (intro conjI allI impI)
  show "extract_constrained c = Inr None \<longleftrightarrow> c = SolOther"
    by (rule extract_constrained_unbound)
next
  fix ux uy unc
  assume "extract_unconstrained u = Inr (ux, uy) \<and>
        kms_to_deg ux uy origin_long origin_lat = Inr unc"
  then show "results_conversion u SolOther origin_long origin_lat = Inl NameError"
    by (simp add: results_conversion_def extract_constrained_def)
next
  fix r
  assume r: "results_conversion u c origin_long origin_lat = Inr r"
  then obtain a b where "extract_constrained c = Inr (Some (a, b))"
    by (auto simp: results_conversion_def split: sum.splits option.splits prod.splits)
  then show "(\<exists>a b rest ts. c = SolList ((a # b # rest) # ts)) \<or>
        (\<exists>d. c = SolDict d \<and> X \<in> dom d \<and> Y \<in> dom d)"
    unfolding extract_constrained_bound by blast
qed

theorem C10_extraction_shapes_witness:
  "extract_constrained SolOther = Inr None \<and>
   results_conversion (SolDict [X \<mapsto> 1, Y \<mapsto> 2]) SolOther 0 0 = Inl NameError \<and>
   results_conversion (SolDict [X \<mapsto> 1, Y \<mapsto> 2]) (SolList []) 0 0 = Inl IndexError"
proof -
  have u: "extract_unconstrained (SolDict [X \<mapsto> 1, Y \<mapsto> 2]) = Inr (1, 2)"
    by (simp add: extract_unconstrained_def subscript_sym_def)
  have k: "kms_to_deg 1 2 0 0 = Inr (0 + 1 / 6371 * 180 / math_pi, 0 + 2 / 6371 * 180 / math_pi)"
    by (simp add: kms_to_deg_def py_div_def)
  have e: "results_conversion (SolDict [X \<mapsto> 1, Y \<mapsto> 2]) (SolList []) 0 0 = Inl IndexError"
    by (simp add: results_conversion_def u extract_constrained_def)
  show ?thesis
    using C10_extraction_shapes [of SolOther "SolDict [X \<mapsto> 1, Y \<mapsto> 2]" 0 0] u k e
    by simp
qed

end
